theory Spec2Isabelle
  imports Main
begin

section \<open>JavaScript values\<close>

text \<open>
  The values the plugin stores and reads back are JSON-like JavaScript values. A plain
  object is the list of its own properties in \<open>Object.keys\<close> order. Numbers are
  integers here: floating point is outside this development.
\<close>

datatype jsval =
    JUndef
  | JNull
  | JBool bool
  | JNum int
  | JStr string
  | JArr "jsval list"
  | JObj "(string \<times> jsval) list"

datatype error =
    TypeError
  | SyntaxError
  | Error string

text \<open>The \<open>typeof\<close> operator; \<open>typeof null\<close> is \<open>"object"\<close>, and so is an array.\<close>

fun typeof :: "jsval \<Rightarrow> string" where
  "typeof JUndef = ''undefined''"
| "typeof JNull = ''object''"
| "typeof (JBool b) = ''boolean''"
| "typeof (JNum n) = ''number''"
| "typeof (JStr s) = ''string''"
| "typeof (JArr xs) = ''object''"
| "typeof (JObj ps) = ''object''"

text \<open>Truthiness, as \<open>v && ...\<close> and \<open>!v\<close> test it.\<close>

fun truthy :: "jsval \<Rightarrow> bool" where
  "truthy JUndef = False"
| "truthy JNull = False"
| "truthy (JBool b) = b"
| "truthy (JNum n) = (n \<noteq> 0)"
| "truthy (JStr s) = (s \<noteq> [])"
| "truthy (JArr xs) = True"
| "truthy (JObj ps) = True"

text \<open>\<open>arr[idx]\<close> on an array: \<open>undefined\<close> beyond the end.\<close>

definition at_index :: "jsval list \<Rightarrow> nat \<Rightarrow> jsval" where
  "at_index arr idx = (if idx < length arr then arr ! idx else JUndef)"

text \<open>A property name that is an array index: a decimal numeral without a leading zero.\<close>

definition digit_of :: "char \<Rightarrow> nat option" where
  "digit_of c =
     (if 48 \<le> (of_char c :: nat) \<and> (of_char c :: nat) \<le> 57 then Some (of_char c - 48) else None)"

fun decimal :: "string \<Rightarrow> nat \<Rightarrow> nat option" where
  "decimal [] acc = Some acc"
| "decimal (c # cs) acc =
     (case digit_of c of None \<Rightarrow> None | Some d \<Rightarrow> decimal cs (10 * acc + d))"

definition array_index :: "string \<Rightarrow> nat option" where
  "array_index key =
     (case key of
        [] \<Rightarrow> None
      | c # cs \<Rightarrow> if c = CHR ''0'' \<and> cs \<noteq> [] then None else decimal key 0)"

text \<open>
  \<open>payload[key]\<close>: reading a property of \<open>null\<close> or \<open>undefined\<close> throws a
  TypeError; an object yields its own property or \<open>undefined\<close>; an array yields its
  \<open>length\<close>, the element at an index, and \<open>undefined\<close> for any other name. Names
  inherited from a prototype (\<open>constructor\<close>, \<open>toString\<close>, the array methods) are not
  field names of this development. \<open>serialize\<close> reads properties only of values whose
  \<open>typeof\<close> is \<open>"object"\<close>; for a boolean, a number or a string the read is given as
  \<open>undefined\<close>.
\<close>

fun lookup :: "(string \<times> jsval) list \<Rightarrow> string \<Rightarrow> jsval" where
  "lookup [] key = JUndef"
| "lookup ((k, v) # ps) key = (if k = key then v else lookup ps key)"

fun getProp :: "jsval \<Rightarrow> string \<Rightarrow> error + jsval" where
  "getProp JUndef key = Inl TypeError"
| "getProp JNull key = Inl TypeError"
| "getProp (JObj ps) key = Inr (lookup ps key)"
| "getProp (JArr xs) key =
     Inr (if key = ''length'' then JNum (int (length xs))
          else (case array_index key of Some idx \<Rightarrow> at_index xs idx | None \<Rightarrow> JUndef))"
| "getProp v key = Inr JUndef"

text \<open>\<open>Object.values\<close>: throws on \<open>null\<close> and \<open>undefined\<close>; the elements of an
  array, the property values of an object, nothing for a boolean or a number, the
  characters of a string.\<close>

fun Object_values :: "jsval \<Rightarrow> error + jsval list" where
  "Object_values JUndef = Inl TypeError"
| "Object_values JNull = Inl TypeError"
| "Object_values (JArr xs) = Inr xs"
| "Object_values (JObj ps) = Inr (map snd ps)"
| "Object_values (JStr s) = Inr (map (\<lambda>c. JStr [c]) s)"
| "Object_values v = Inr []"

text \<open>A loop whose body may throw: the first exception ends it.\<close>

fun collect :: "('e + 'a) list \<Rightarrow> 'e + 'a list" where
  "collect [] = Inr []"
| "collect (x # xs) =
     (case x of
        Inl e \<Rightarrow> Inl e
      | Inr v \<Rightarrow> (case collect xs of Inl e \<Rightarrow> Inl e | Inr vs \<Rightarrow> Inr (v # vs)))"

section \<open>Schemas\<close>

text \<open>
  Modelled from the spec: the schema library (\<open>@sigiljs/seal\<close>) is not part of the
  repository. Its schemas are taken as the type \<open>RedisTemplate\<close> of the executor
  declares them: a primitive, a nullable primitive, an array of primitives or of
  nullable primitives, or an object schema, whose shape lists the fields in
  \<open>Object.keys\<close> order.
\<close>

datatype base = PString | PNumber | PBoolean

datatype item = Base base | NullableBase base

datatype schema =
    Primitive base
  | Nullable base
  | Array item
  | Object "(string \<times> schema) list"

fun instanceof_ObjectSchema :: "schema \<Rightarrow> bool" where
  "instanceof_ObjectSchema (Object shape) = True"
| "instanceof_ObjectSchema s = False"

text \<open>\<open>Object.keys(seal.exportMetadataOf(template).shape || {})\<close>: the field names of
  an object schema, no name for any other schema.\<close>

fun shape_keys :: "schema \<Rightarrow> string list" where
  "shape_keys (Object shape) = map fst shape"
| "shape_keys s = []"

text \<open>
  Modelled from the spec: \<open>seal.validate(schema, value)\<close> returns a list of errors,
  empty for a valid value; \<open>validate\<close> is True where that list is empty. A nullable
  schema permits absence: it accepts \<open>null\<close>, \<open>undefined\<close> (a missing field) and what
  its primitive accepts. An object value is valid when every declared field, read from
  the value, is valid for its field schema; the spec sets no condition on further
  properties, and none is made here.
\<close>

fun validate_base :: "base \<Rightarrow> jsval \<Rightarrow> bool" where
  "validate_base PString (JStr s) = True"
| "validate_base PNumber (JNum n) = True"
| "validate_base PBoolean (JBool b) = True"
| "validate_base b v = False"

fun validate_item :: "item \<Rightarrow> jsval \<Rightarrow> bool" where
  "validate_item (Base b) v = validate_base b v"
| "validate_item (NullableBase b) v = (v = JNull \<or> v = JUndef \<or> validate_base b v)"

fun validate :: "schema \<Rightarrow> jsval \<Rightarrow> bool" where
  "validate (Primitive b) v = validate_base b v"
| "validate (Nullable b) v = (v = JNull \<or> v = JUndef \<or> validate_base b v)"
| "validate (Array i) v = (case v of JArr xs \<Rightarrow> list_all (validate_item i) xs | _ \<Rightarrow> False)"
| "validate (Object shape) v =
     (case v of
        JObj ps \<Rightarrow> list_all (\<lambda>(key, s). validate s (lookup ps key)) shape
      | _ \<Rightarrow> False)"

section \<open>The codec\<close>

subsection \<open>Encoding: \<open>RedisSchemaExecutor.serialize\<close>\<close>

text \<open>
  The method has one parameter, the payload; the shape keys are those of the
  executor's own template at every depth of the recursion.
\<close>

function serialize :: "schema \<Rightarrow> jsval \<Rightarrow> error + jsval" where
  "serialize template payload =
     (if typeof payload \<noteq> ''object'' then Inr payload
      else
        let schemaShapeKeys = shape_keys template in
        if schemaShapeKeys \<noteq> [] then
          map_sum id JArr (collect (map (\<lambda>key.
            case getProp payload key of
              Inl e \<Rightarrow> Inl e
            | Inr v \<Rightarrow> if truthy v \<and> typeof v = ''object'' then serialize template v else Inr v)
            schemaShapeKeys))
        else
          (case Object_values payload of
             Inl e \<Rightarrow> Inl e
           | Inr vs \<Rightarrow>
               map_sum id JArr (collect (map (\<lambda>v.
                 if truthy v \<and> typeof v = ''object'' then serialize template v else Inr v) vs))))"
  by pat_completeness auto

lemma size_lookup: "lookup ps key \<noteq> JUndef \<Longrightarrow> size (lookup ps key) < size (JObj ps)"
  by (induction ps) (auto split: if_splits)

lemma size_member: "v \<in> set xs \<Longrightarrow> size v < Suc (size_list size xs)"
  by (induction xs) auto

lemma size_getProp:
  "getProp payload key = Inr v \<Longrightarrow> typeof v = ''object'' \<Longrightarrow> truthy v \<Longrightarrow> size v < size payload"
proof (cases payload)
  case (JObj ps)
  assume "getProp payload key = Inr v" "truthy v"
  with JObj have "lookup ps key \<noteq> JUndef" "v = lookup ps key" by auto
  with size_lookup [of ps key] JObj show ?thesis by simp
next
  case (JArr xs)
  assume "getProp payload key = Inr v" "typeof v = ''object''" "truthy v"
  with JArr obtain idx where "idx < length xs" "v = xs ! idx"
    by (auto simp: at_index_def split: if_splits option.splits)
  then have "v \<in> set xs" by simp
  with size_member [of v xs] JArr show ?thesis by simp
qed auto

lemma size_member_snd:
  "(k, v) \<in> set ps \<Longrightarrow> size (v::jsval) < Suc (size_list (size_prod (\<lambda>x. 0) size) ps)"
  by (induction ps) auto

lemma size_Object_values:
  "Object_values payload = Inr vs \<Longrightarrow> v \<in> set vs \<Longrightarrow> typeof v = ''object'' \<Longrightarrow>
   size v < size payload"
proof (cases payload)
  case (JObj ps)
  assume "Object_values payload = Inr vs" "v \<in> set vs"
  with JObj obtain k where "(k, v) \<in> set ps" by auto
  from size_member_snd [OF this] JObj show ?thesis by simp
next
  case (JArr xs)
  assume "Object_values payload = Inr vs" "v \<in> set vs"
  with JArr size_member [of v xs] show ?thesis by auto
qed auto

termination serialize
  by (relation "measure (\<lambda>(template, payload). size payload)")
    (auto dest: size_getProp size_Object_values)

declare serialize.simps [simp del]

subsection \<open>The wire text\<close>

text \<open>
  Modelled from the spec: the wire format is JSON-compatible text, written by
  \<open>jsonStringify\<close> of \<open>@sigiljs/sigil/utils\<close> and read by \<open>JSON.parse\<close>, neither of
  which is part of the repository. A stored text is represented by what \<open>JSON.parse\<close>
  makes of it: the empty string, a non-empty text that is not JSON, or the text of a
  JSON document. Writing a value as JSON turns an \<open>undefined\<close> array element into
  \<open>null\<close> and leaves out a property whose value is \<open>undefined\<close>.
\<close>

datatype wire = EmptyText | NonJsonText | JsonText jsval

function json_of :: "jsval \<Rightarrow> jsval" where
  "json_of (JArr xs) = JArr (map (\<lambda>x. if x = JUndef then JNull else json_of x) xs)"
| "json_of (JObj ps) =
     JObj (map (\<lambda>(k, v). (k, json_of v)) (filter (\<lambda>(k, v). v \<noteq> JUndef) ps))"
| "json_of JUndef = JUndef"
| "json_of JNull = JNull"
| "json_of (JBool b) = JBool b"
| "json_of (JNum n) = JNum n"
| "json_of (JStr s) = JStr s"
  by pat_completeness auto
termination
  by (relation "measure size") (auto simp: size_member dest: size_member_snd)

text \<open>The text of \<open>undefined\<close> does not exist; no operation below writes it for a value
  that its schema accepts.\<close>

definition jsonStringify :: "jsval \<Rightarrow> error + wire" where
  "jsonStringify v = (if v = JUndef then Inl TypeError else Inr (JsonText (json_of v)))"

fun JSON_parse :: "wire \<Rightarrow> error + jsval" where
  "JSON_parse (JsonText v) = Inr v"
| "JSON_parse w = Inl SyntaxError"

subsection \<open>Decoding: \<open>fromCompressedArray\<close> and \<open>sealJsonParser\<close>\<close>

text \<open>
  The second argument of \<open>fromCompressedArray\<close> is read through its property
  \<open>__$shape\<close>. The parser passes a schema; the recursive call passes
  \<open>propSchema.__$shape\<close>, the shape itself, which has no such property (no field has
  that name), so that \<open>Object.keys(undefined)\<close> throws.
\<close>

datatype schema_arg = ASchema schema | AShape "(string \<times> schema) list"

fun dollar_shape :: "schema_arg \<Rightarrow> (string \<times> schema) list option" where
  "dollar_shape (ASchema (Object shape)) = Some shape"
| "dollar_shape a = None"

text \<open>\<open>arr[idx]\<close>: an element of an array, a character of a string, a TypeError on
  \<open>null\<close> and \<open>undefined\<close>; on any other value, \<open>undefined\<close> (an index is no field
  name).\<close>

fun element :: "jsval \<Rightarrow> nat \<Rightarrow> error + jsval" where
  "element JUndef idx = Inl TypeError"
| "element JNull idx = Inl TypeError"
| "element (JArr xs) idx = Inr (at_index xs idx)"
| "element (JStr s) idx = Inr (if idx < length s then JStr [s ! idx] else JUndef)"
| "element v idx = Inr JUndef"

function fromCompressedArray :: "jsval \<Rightarrow> schema_arg \<Rightarrow> error + jsval" where
  "fromCompressedArray arr schema =
     (case dollar_shape schema of
        None \<Rightarrow> Inl TypeError
      | Some shape \<Rightarrow>
          map_sum id (\<lambda>vs. JObj (zip (map fst shape) vs))
            (collect (map (\<lambda>(idx, (key, propSchema)).
               case element arr idx of
                 Inl e \<Rightarrow> Inl e
               | Inr raw \<Rightarrow>
                   (case propSchema of
                      Object sh \<Rightarrow> fromCompressedArray raw (AShape sh)
                    | _ \<Rightarrow> Inr raw))
               (enumerate 0 shape))))"
  by pat_completeness auto
termination
  by (relation "measure (\<lambda>(arr, schema). case schema of ASchema s \<Rightarrow> 1 | AShape sh \<Rightarrow> 0)")
    (auto split: schema_arg.splits)

declare fromCompressedArray.simps [simp del]

definition sealJsonParser :: "wire \<Rightarrow> schema \<Rightarrow> error + jsval" where
  "sealJsonParser jsonArrayString schema =
     (case JSON_parse jsonArrayString of
        Inl e \<Rightarrow> Inl e
      | Inr parsed \<Rightarrow>
          (case parsed of
             JArr xs \<Rightarrow>
               if \<not> instanceof_ObjectSchema schema then
                 (if \<not> validate schema parsed then Inr JNull else Inr parsed)
               else
                 (case fromCompressedArray parsed (ASchema schema) of
                    Inl e \<Rightarrow> Inl e
                  | Inr obj \<Rightarrow> if \<not> validate schema obj then Inr JNull else Inr obj)
           | _ \<Rightarrow> Inl (Error ''Input must be a JSON array string'')))"

text \<open>Deep equality of two values: property order does not count.\<close>

function deep_equal :: "jsval \<Rightarrow> jsval \<Rightarrow> bool" where
  "deep_equal (JArr xs) w = (case w of JArr ys \<Rightarrow> list_all2 deep_equal xs ys | _ \<Rightarrow> False)"
| "deep_equal (JObj ps) w =
     (case w of
        JObj qs \<Rightarrow>
          set (map fst ps) = set (map fst qs) \<and>
          list_all (\<lambda>(k, v). deep_equal v (lookup qs k)) ps
      | _ \<Rightarrow> False)"
| "deep_equal JUndef w = (w = JUndef)"
| "deep_equal JNull w = (w = JNull)"
| "deep_equal (JBool b) w = (w = JBool b)"
| "deep_equal (JNum n) w = (w = JNum n)"
| "deep_equal (JStr s) w = (w = JStr s)"
  by pat_completeness auto
termination
  by (relation "measure (\<lambda>(v, w). size v)") (auto simp: size_member dest: size_member_snd)

text \<open>What \<open>get\<close> decodes from the text that \<open>set\<close> writes for a value:
  \<open>decode(schema, encode(schema, value))\<close>.\<close>

definition decode_encode :: "schema \<Rightarrow> jsval \<Rightarrow> error + jsval" where
  "decode_encode template v =
     (case serialize template v of
        Inl e \<Rightarrow> Inl e
      | Inr s \<Rightarrow>
          (case jsonStringify s of
             Inl e \<Rightarrow> Inl e
           | Inr serializedValue \<Rightarrow> sealJsonParser serializedValue template))"

text \<open>The values that primitive and nullable schemas accept: \<open>null\<close>, a boolean, a
  number or a string.\<close>

fun scalar_value :: "jsval \<Rightarrow> bool" where
  "scalar_value JNull = True"
| "scalar_value (JBool b) = True"
| "scalar_value (JNum n) = True"
| "scalar_value (JStr s) = True"
| "scalar_value v = False"

text \<open>A primitive or nullable schema; an array schema or an object schema all of whose
  fields are primitive or nullable (their names distinct, as the keys of an object
  are).\<close>

fun scalar_schema :: "schema \<Rightarrow> bool" where
  "scalar_schema (Primitive b) = True"
| "scalar_schema (Nullable b) = True"
| "scalar_schema s = False"

fun flat_schema :: "schema \<Rightarrow> bool" where
  "flat_schema (Array i) = True"
| "flat_schema (Object shape) = (distinct (map fst shape) \<and> list_all (\<lambda>(key, s). scalar_schema s) shape)"
| "flat_schema s = False"

text \<open>
  What the wire keeps of a value: the declared fields of an object, the elements of an
  array, with \<open>null\<close> where the field or element is absent (\<open>undefined\<close>), JSON
  having no text for \<open>undefined\<close>.
\<close>

definition null_if_absent :: "jsval \<Rightarrow> jsval" where
  "null_if_absent v = (if v = JUndef then JNull else v)"

fun as_stored :: "schema \<Rightarrow> jsval \<Rightarrow> jsval" where
  "as_stored (Object shape) (JObj ps) =
     JObj (map (\<lambda>(key, s). (key, null_if_absent (lookup ps key))) shape)"
| "as_stored (Array i) (JArr xs) = JArr (map null_if_absent xs)"
| "as_stored s v = v"

text \<open>A value with nothing absent and nothing beyond the schema: the properties of an
  object are exactly the declared fields, and no property or element is \<open>undefined\<close>.\<close>

fun fully_present :: "schema \<Rightarrow> jsval \<Rightarrow> bool" where
  "fully_present (Object shape) (JObj ps) =
     (set (map fst ps) = set (map fst shape) \<and> distinct (map fst ps) \<and>
      list_all (\<lambda>(k, v). v \<noteq> JUndef) ps)"
| "fully_present (Array i) (JArr xs) = list_all (\<lambda>v. v \<noteq> JUndef) xs"
| "fully_present s v = (v \<noteq> JUndef)"

subsection \<open>The reconstruction in the words of the spec\<close>

text \<open>
  Section 4.1 of the spec: walk the field order and the parsed array pairwise,
  reconstructing a nested object, with the field's own schema, where the field schema
  is an object schema (an error if the element is not an array), and passing any other
  element through unchanged; a field beyond the end of the array is \<open>undefined\<close>.
\<close>

lemma size_field_schema:
  "(key, s) \<in> set shape \<Longrightarrow> size (s::schema) < Suc (size_list (size_prod (\<lambda>x. 0) size) shape)"
  by (induction shape) auto

function spec_reconstruct :: "(string \<times> schema) list \<Rightarrow> jsval list \<Rightarrow> error + jsval" where
  "spec_reconstruct shape arr =
     map_sum id (\<lambda>vs. JObj (zip (map fst shape) vs))
       (collect (map (\<lambda>(idx, (key, s)).
          case s of
            Object sh \<Rightarrow>
              (case at_index arr idx of
                 JArr ys \<Rightarrow> spec_reconstruct sh ys
               | _ \<Rightarrow> Inl TypeError)
          | _ \<Rightarrow> Inr (at_index arr idx))
          (enumerate 0 shape)))"
  by pat_completeness auto
termination
proof (relation "measure (\<lambda>(shape, arr). size_list (size_prod (\<lambda>x. 0) size) shape)")
  show "wf (measure (\<lambda>(shape, arr). size_list (size_prod (\<lambda>x. 0) size) shape))" by simp
next
  fix shape :: "(string \<times> schema) list" and arr :: "jsval list" and x idx y key s sh ys
  assume "x \<in> set (enumerate 0 shape)" "(idx, y) = x" "(key, s) = y" "s = Object sh"
  then have "idx < length shape" "shape ! idx = (key, Object sh)"
    by (auto simp: in_set_enumerate_eq)
  then have "(key, Object sh) \<in> set shape"
    by (metis nth_mem)
  from size_field_schema [OF this]
  show "((sh, ys), (shape, arr)) \<in> measure (\<lambda>(shape, arr). size_list (size_prod (\<lambda>x. 0) size) shape)"
    by simp
qed

declare spec_reconstruct.simps [simp del]

section \<open>The store connection\<close>

text \<open>
  Modelled from the spec: the store connection (the \<open>redis\<close> client) is an external
  collaborator exposing \<open>isReady\<close>, \<open>set(key, value)\<close>, \<open>setEx(key, seconds, value)\<close>,
  \<open>get(key)\<close>, giving the text or \<open>null\<close>, and \<open>del(key)\<close>, giving the count of keys
  removed. The client's \<open>isReady\<close> flag is read at several moments: \<open>isReady c 0\<close> is
  its value now, \<open>isReady c n\<close> its value \<open>n\<close> timer intervals of 100 ms from now.
  A stored record is its text with the expiry in seconds, if it has one; time does not
  pass in the store. The reply of \<open>get\<close> is the text as a string or, for a client set
  up to return buffers, as a \<open>Buffer\<close> of its bytes.
\<close>

record entry =
  content :: wire
  expiry :: "int option"

datatype reply = Text wire | Buffer wire

record client =
  isReady :: "nat \<Rightarrow> bool"
  returnBuffers :: bool
  db :: "string \<rightharpoonup> entry"

definition elapse :: "nat \<Rightarrow> client \<Rightarrow> client" where
  "elapse n c = c\<lparr>isReady := (\<lambda>i. isReady c (n + i))\<rparr>"

definition client_set :: "client \<Rightarrow> string \<Rightarrow> wire \<Rightarrow> client" where
  "client_set c k v = c\<lparr>db := (db c)(k \<mapsto> \<lparr>content = v, expiry = None\<rparr>)\<rparr>"

definition client_setEx :: "client \<Rightarrow> string \<Rightarrow> int \<Rightarrow> wire \<Rightarrow> client" where
  "client_setEx c k seconds v = c\<lparr>db := (db c)(k \<mapsto> \<lparr>content = v, expiry = Some seconds\<rparr>)\<rparr>"

definition client_get :: "client \<Rightarrow> string \<Rightarrow> reply option" where
  "client_get c k =
     map_option (\<lambda>e. if returnBuffers c then Buffer (content e) else Text (content e)) (db c k)"

text \<open>\<open>!rawValue\<close> on a reply: only the empty string is falsy; a \<open>Buffer\<close> is an object
  and truthy, also when it is empty.\<close>

fun falsy :: "reply \<Rightarrow> bool" where
  "falsy (Text t) = (t = EmptyText)"
| "falsy (Buffer b) = False"

text \<open>\<open>Buffer.isBuffer(rawValue) ? rawValue.toString("utf8") : rawValue\<close>.\<close>

fun text_of :: "reply \<Rightarrow> wire" where
  "text_of (Buffer b) = b"
| "text_of (Text t) = t"

definition client_del :: "client \<Rightarrow> string \<Rightarrow> int \<times> client" where
  "client_del c k = (if k \<in> dom (db c) then 1 else 0, c\<lparr>db := (db c)(k := None)\<rparr>)"

section \<open>The executor\<close>

text \<open>The options as the constructor of \<open>RedisSchema\<close> hands them to the executor:
  \<open>readOnce\<close> defaulted, the namespace given or derived.\<close>

record options =
  ttl :: "int option"
  readOnce :: bool
  namespace :: string

text \<open>How the promise of an asynchronous method ends: with a value, with an error, or
  never.\<close>

datatype 'a promise = Fulfilled 'a | Rejected error | Pending

subsection \<open>\<open>waitInitialization\<close>\<close>

text \<open>
  The callback of \<open>setInterval\<close>, at the tick that follows \<open>attempt\<close> ticks. Its \<open>throw\<close>
  is raised inside the timer callback, after \<open>clearInterval\<close>: it is an uncaught exception
  of the timer, and the promise, which only \<open>resolve\<close> can settle, is left pending.
\<close>

datatype gate = Resolved nat | Uncaught error

definition timeout_message :: string where
  "timeout_message =
     ''Redis initialization timeout, if this is only error you encounter, double-check that Sigil'' @
     '' app starts listening BEFORE any redis interactions''"

function interval :: "(nat \<Rightarrow> bool) \<Rightarrow> nat \<Rightarrow> gate" where
  "interval ready attempt =
     (if attempt + 1 > 300 then Uncaught (Error timeout_message)
      else if \<not> ready (attempt + 1) then interval ready (attempt + 1)
      else Resolved (attempt + 1))"
  by pat_completeness auto
termination
  by (relation "measure (\<lambda>(ready, attempt). 301 - attempt)") auto

declare interval.simps [simp del]

definition waitInitialization :: "client \<Rightarrow> gate" where
  "waitInitialization c = (if isReady c 0 then Resolved 0 else interval (isReady c) 0)"

subsection \<open>\<open>set\<close>, \<open>get\<close>, \<open>delete\<close>\<close>

definition fullKey :: "options \<Rightarrow> string \<Rightarrow> string" where
  "fullKey opts key = namespace opts @ ''+'' @ key"

text \<open>Each method takes the client as it is when the method is called and gives the
  outcome of its promise with the client as the method leaves it. A command of the
  client that is not awaited (\<open>set\<close>, \<open>setEx\<close> in \<open>set\<close>, the \<open>delete\<close> in \<open>get\<close>) has
  been sent by then.\<close>

definition set_value :: "client \<Rightarrow> options \<Rightarrow> schema \<Rightarrow> string \<Rightarrow> jsval \<Rightarrow> string promise \<times> client" where
  "set_value c opts template key v =
     (case waitInitialization c of
        Uncaught e \<Rightarrow> (Pending, c)
      | Resolved n \<Rightarrow>
          (case serialize template v of
             Inl e \<Rightarrow> (Rejected e, elapse n c)
           | Inr s \<Rightarrow>
               (case jsonStringify s of
                  Inl e \<Rightarrow> (Rejected e, elapse n c)
                | Inr serializedValue \<Rightarrow>
                    (Fulfilled key,
                     case ttl opts of
                       Some seconds \<Rightarrow> client_setEx (elapse n c) (fullKey opts key) seconds serializedValue
                     | None \<Rightarrow> client_set (elapse n c) (fullKey opts key) serializedValue))))"

definition delete :: "client \<Rightarrow> options \<Rightarrow> string \<Rightarrow> int promise \<times> client" where
  "delete c opts key =
     (case waitInitialization c of
        Uncaught e \<Rightarrow> (Pending, c)
      | Resolved n \<Rightarrow> (case client_del (elapse n c) key of (count, c') \<Rightarrow> (Fulfilled count, c')))"

text \<open>The branch of \<open>get\<close> for a falsy raw value.\<close>

definition absent :: "client \<Rightarrow> string \<Rightarrow> bool \<Rightarrow> jsval promise \<times> client" where
  "absent c key force =
     (if force then (Rejected (Error (''Key '' @ key @ '' not found'')), c)
      else (Fulfilled JNull, c))"

definition get :: "client \<Rightarrow> options \<Rightarrow> schema \<Rightarrow> string \<Rightarrow> bool \<Rightarrow> jsval promise \<times> client" where
  "get c opts template key force =
     (case waitInitialization c of
        Uncaught e \<Rightarrow> (Pending, c)
      | Resolved n \<Rightarrow>
          (case client_get (elapse n c) (fullKey opts key) of
             None \<Rightarrow> absent (elapse n c) key force
           | Some rawValue \<Rightarrow>
               if falsy rawValue then absent (elapse n c) key force
               else
                 (case sealJsonParser (text_of rawValue) template of
                    Inl e \<Rightarrow> Rejected e
                  | Inr v \<Rightarrow> Fulfilled v,
                  if readOnce opts then snd (delete (elapse n c) opts key) else elapse n c)))"

section \<open>The schemas and values of the examples\<close>

definition schema_A :: schema where
  "schema_A = Object [(''userId'', Primitive PString), (''userName'', Nullable PString)]"

definition schema_B :: schema where
  "schema_B = Object [(''profile'', schema_A), (''active'', Primitive PBoolean)]"

definition connected :: client where
  "connected = \<lparr>isReady = (\<lambda>n. True), returnBuffers = False, db = Map.empty\<rparr>"

definition never_ready :: client where
  "never_ready = \<lparr>isReady = (\<lambda>n. False), returnBuffers = False, db = Map.empty\<rparr>"

definition empty_x :: client where
  "empty_x = \<lparr>isReady = (\<lambda>n. True), returnBuffers = False,
     db = [''ns+x'' \<mapsto> \<lparr>content = EmptyText, expiry = None\<rparr>]\<rparr>"

definition empty_x_buffer :: client where
  "empty_x_buffer = \<lparr>isReady = (\<lambda>n. True), returnBuffers = True,
     db = [''ns+x'' \<mapsto> \<lparr>content = EmptyText, expiry = None\<rparr>]\<rparr>"

definition invalid_x :: client where
  "invalid_x = \<lparr>isReady = (\<lambda>n. True), returnBuffers = False,
     db = [''ns+x'' \<mapsto> \<lparr>content = JsonText (JArr [JNum 7, JNull]), expiry = Some 2\<rparr>]\<rparr>"

definition nested_x :: client where
  "nested_x = \<lparr>isReady = (\<lambda>n. True), returnBuffers = False,
     db = [''ns+x'' \<mapsto>
       \<lparr>content = JsonText (JArr [JArr [JNum 1, JNum 2], JBool True]), expiry = None\<rparr>]\<rparr>"

definition value_7_only :: jsval where
  "value_7_only = JObj [(''userId'', JStr ''7'')]"

definition value_7 :: jsval where
  "value_7 = JObj [(''userId'', JStr ''7''), (''userName'', JNull)]"

definition value_bob :: jsval where
  "value_bob = JObj [(''profile'', JObj [(''userId'', JStr ''1''), (''userName'', JStr ''bob'')]),
     (''active'', JBool True)]"

definition once_2s :: options where
  "once_2s = \<lparr>ttl = Some 2, readOnce = True, namespace = ''ns''\<rparr>"

section \<open>The readiness gate\<close>

lemma interval_Resolved:
  "interval ready a = Resolved n \<longleftrightarrow>
     a < n \<and> n \<le> 300 \<and> ready n \<and> (\<forall>m. a < m \<and> m < n \<longrightarrow> \<not> ready m)"
proof (induction ready a rule: interval.induct)
  case (1 ready attempt)
  show ?case
  proof (cases "attempt + 1 > 300")
    case True
    then show ?thesis by (subst interval.simps) auto
  next
    case small: False
    show ?thesis
    proof (cases "ready (attempt + 1)")
      case True
      have "(attempt + 1 = n) \<longleftrightarrow>
        (attempt < n \<and> n \<le> 300 \<and> ready n \<and> (\<forall>m. attempt < m \<and> m < n \<longrightarrow> \<not> ready m))"
      proof
        assume "attempt + 1 = n"
        with True small show "attempt < n \<and> n \<le> 300 \<and> ready n \<and> (\<forall>m. attempt < m \<and> m < n \<longrightarrow> \<not> ready m)"
          by auto
      next
        assume r: "attempt < n \<and> n \<le> 300 \<and> ready n \<and> (\<forall>m. attempt < m \<and> m < n \<longrightarrow> \<not> ready m)"
        show "attempt + 1 = n"
        proof (rule ccontr)
          assume "attempt + 1 \<noteq> n"
          with r have "attempt < attempt + 1 \<and> attempt + 1 < n" by auto
          with r True show False by blast
        qed
      qed
      with True small show ?thesis by (subst interval.simps) auto
    next
      case False
      have "interval ready attempt = interval ready (attempt + 1)"
        using False small by (subst interval.simps) auto
      moreover have "(attempt + 1 < n \<and> n \<le> 300 \<and> ready n \<and> (\<forall>m. attempt + 1 < m \<and> m < n \<longrightarrow> \<not> ready m))
        \<longleftrightarrow> (attempt < n \<and> n \<le> 300 \<and> ready n \<and> (\<forall>m. attempt < m \<and> m < n \<longrightarrow> \<not> ready m))"
        (is "?l \<longleftrightarrow> ?r")
      proof
        assume ?l
        then show ?r using False
          by (metis Suc_eq_plus1 Suc_lessI less_SucI less_imp_le_nat not_less_eq_eq order_less_le)
      next
        assume r: ?r
        with False have "attempt + 1 \<noteq> n" by auto
        with r show ?l by auto
      qed
      ultimately show ?thesis using "1.IH" [OF small False] by simp
    qed
  qed
qed

lemma interval_cases:
  "(\<exists>n. interval ready a = Resolved n) \<or> interval ready a = Uncaught (Error timeout_message)"
  by (induction ready a rule: interval.induct) (subst (1 2) interval.simps, auto)

lemma waitInitialization_Resolved:
  "waitInitialization c = Resolved n \<longleftrightarrow>
     n \<le> 300 \<and> isReady c n \<and> (\<forall>m. m < n \<longrightarrow> \<not> isReady c m)"
proof (cases "isReady c 0")
  case True
  then show ?thesis by (auto simp: waitInitialization_def)
next
  case False
  have "(0 < n \<and> n \<le> 300 \<and> isReady c n \<and> (\<forall>m. 0 < m \<and> m < n \<longrightarrow> \<not> isReady c m))
    \<longleftrightarrow> (n \<le> 300 \<and> isReady c n \<and> (\<forall>m. m < n \<longrightarrow> \<not> isReady c m))"
    using False by (metis gr0I)
  with False show ?thesis by (simp add: waitInitialization_def interval_Resolved)
qed

lemma waitInitialization_Uncaught:
  "waitInitialization c = Uncaught e \<longleftrightarrow>
     e = Error timeout_message \<and> (\<forall>n. n \<le> 300 \<longrightarrow> \<not> isReady c n)"
proof
  assume u: "waitInitialization c = Uncaught e"
  then have "isReady c 0 = False" by (auto simp: waitInitialization_def split: if_splits)
  with u interval_cases [of "isReady c" 0] have e: "e = Error timeout_message"
    by (auto simp: waitInitialization_def)
  have "\<not> isReady c n" if "n \<le> 300" for n
  proof
    assume "isReady c n"
    then obtain k where "k \<le> n" "isReady c k" "\<forall>m. m < k \<longrightarrow> \<not> isReady c m"
      by (metis (mono_tags) exists_least_iff linorder_not_less order_less_imp_le )
    with that have "waitInitialization c = Resolved k"
      by (simp add: waitInitialization_Resolved)
    with u show False by simp
  qed
  with e show "e = Error timeout_message \<and> (\<forall>n. n \<le> 300 \<longrightarrow> \<not> isReady c n)" by simp
next
  assume r: "e = Error timeout_message \<and> (\<forall>n. n \<le> 300 \<longrightarrow> \<not> isReady c n)"
  then have "\<And>n. waitInitialization c \<noteq> Resolved n"
    by (auto simp: waitInitialization_Resolved)
  moreover have "(\<exists>n. waitInitialization c = Resolved n) \<or> waitInitialization c = Uncaught (Error timeout_message)"
    using interval_cases [of "isReady c" 0] by (auto simp: waitInitialization_def)
  ultimately show "waitInitialization c = Uncaught e" using r by auto
qed

section \<open>The store operations\<close>

lemma waitInitialization_elapse:
  "waitInitialization c = Resolved n \<Longrightarrow> waitInitialization (elapse n c) = Resolved 0"
  by (simp add: waitInitialization_Resolved) (simp add: waitInitialization_def elapse_def)

lemma db_elapse: "db (elapse n c) = db c"
  by (simp add: elapse_def)

lemma fullKey_neq: "fullKey opts key \<noteq> key"
proof
  assume "fullKey opts key = key"
  then have "length (fullKey opts key) = length key" by simp
  then show False by (simp add: fullKey_def)
qed

lemma db_delete:
  "waitInitialization c = Resolved n \<Longrightarrow> db (snd (delete c opts key)) = (db c)(key := None)"
  by (simp add: delete_def client_del_def db_elapse)

lemma db_delete_fullKey:
  "db (snd (delete c opts key)) (fullKey opts key) = db c (fullKey opts key)"
  by (cases "waitInitialization c") (simp_all add: delete_def client_del_def db_elapse fullKey_neq)

lemma waitInitialization_db:
  "waitInitialization (c\<lparr>db := d\<rparr>) = waitInitialization c"
  by (simp add: waitInitialization_def)

text \<open>
  Claim C6. For every key absent from the store, once the readiness gate has let the
  call through, \<open>get(key, force = true)\<close> fails with the not-found error and \<open>get(key)\<close>
  without force returns \<open>null\<close>.
\<close>

theorem get_absent_key:
  assumes "waitInitialization c = Resolved n"
    and "db c (fullKey opts key) = None"
  shows "fst (get c opts template key True) = Rejected (Error (''Key '' @ key @ '' not found'')) \<and>
         fst (get c opts template key False) = Fulfilled JNull"
  using assms by (simp add: get_def client_get_def db_elapse absent_def)

theorem get_absent_key_witness:
  "waitInitialization connected = Resolved 0 \<and>
   db connected (fullKey once_2s ''missing'') = None \<and>
   fst (get connected once_2s schema_A ''missing'' True) = Rejected (Error ''Key missing not found'') \<and>
   fst (get connected once_2s schema_A ''missing'' False) = Fulfilled JNull"
proof -
  have g: "waitInitialization connected = Resolved 0"
    by (simp add: waitInitialization_def connected_def)
  have a: "db connected (fullKey once_2s ''missing'') = None"
    by (simp add: connected_def)
  from get_absent_key [OF g a, of schema_A] g a show ?thesis by simp
qed

lemma get_keeps_record:
  "db (snd (get c opts template key force)) (fullKey opts key) = db c (fullKey opts key)"
  by (cases "waitInitialization c")
    (auto simp: get_def absent_def db_elapse db_delete_fullKey split: option.splits)

text \<open>
  Claim C9, as stated, at a client that returns buffers: the empty string stored at the
  full key arrives as an empty \<open>Buffer\<close>, which is truthy, so \<open>get\<close> goes on to decode
  it and fails with the error of \<open>JSON.parse\<close>, with and without \<open>force\<close>, where a
  missing record gives \<open>null\<close>.
\<close>

theorem get_empty_string_counterexample:
  "db empty_x_buffer (fullKey once_2s ''x'') = Some \<lparr>content = EmptyText, expiry = None\<rparr> \<and>
   fst (get empty_x_buffer once_2s schema_A ''x'' False) = Rejected SyntaxError \<and>
   fst (get empty_x_buffer once_2s schema_A ''x'' True) = Rejected SyntaxError \<and>
   fst (get (empty_x_buffer\<lparr>db := Map.empty\<rparr>) once_2s schema_A ''x'' False) = Fulfilled JNull"
  by (simp add: get_def once_2s_def empty_x_buffer_def waitInitialization_def elapse_def
      client_get_def fullKey_def sealJsonParser_def absent_def)

text \<open>
  Claim C9, amended. When the client returns the stored text as a string, a record whose
  text is the empty string is read as absence: \<open>get(key)\<close> returns \<open>null\<close>,
  \<open>get(key, force = true)\<close> fails with the not-found error, the store is left as it is,
  and the outcome is the one of the same call on a store without the record. When the
  client returns it as a \<open>Buffer\<close>, \<open>get\<close> fails with the error of \<open>JSON.parse\<close>.
\<close>

theorem get_empty_string:
  assumes "waitInitialization c = Resolved n"
    and "db c (fullKey opts key) = Some e"
    and "content e = EmptyText"
  shows "(\<not> returnBuffers c \<longrightarrow>
           get c opts template key False = (Fulfilled JNull, elapse n c) \<and>
           get c opts template key True =
             (Rejected (Error (''Key '' @ key @ '' not found'')), elapse n c) \<and>
           fst (get c opts template key force) =
             fst (get (c\<lparr>db := (db c)(fullKey opts key := None)\<rparr>) opts template key force)) \<and>
         (returnBuffers c \<longrightarrow> fst (get c opts template key force) = Rejected SyntaxError)"
proof -
  from assms(1) have w: "waitInitialization (c\<lparr>db := (db c)(fullKey opts key := None)\<rparr>) = Resolved n"
    by (simp add: waitInitialization_db)
  show ?thesis
    using assms w
    by (simp add: get_def client_get_def db_elapse absent_def elapse_def sealJsonParser_def)
qed

theorem get_empty_string_witness:
  "waitInitialization empty_x = Resolved 0 \<and>
   db empty_x (fullKey once_2s ''x'') = Some \<lparr>content = EmptyText, expiry = None\<rparr> \<and>
   content \<lparr>content = EmptyText, expiry = None\<rparr> = EmptyText \<and>
   \<not> returnBuffers empty_x \<and>
   fst (get empty_x once_2s schema_A ''x'' False) = Fulfilled JNull \<and>
   fst (get empty_x once_2s schema_A ''x'' True) = Rejected (Error ''Key x not found'') \<and>
   db (snd (get empty_x once_2s schema_A ''x'' False)) = db empty_x \<and>
   waitInitialization empty_x_buffer = Resolved 0 \<and>
   db empty_x_buffer (fullKey once_2s ''x'') = Some \<lparr>content = EmptyText, expiry = None\<rparr> \<and>
   returnBuffers empty_x_buffer \<and>
   fst (get empty_x_buffer once_2s schema_A ''x'' False) = Rejected SyntaxError"
proof -
  have g: "waitInitialization empty_x = Resolved 0"
    by (simp add: waitInitialization_def empty_x_def)
  have r: "db empty_x (fullKey once_2s ''x'') = Some \<lparr>content = EmptyText, expiry = None\<rparr>"
    by (simp add: empty_x_def fullKey_def once_2s_def)
  have g': "waitInitialization empty_x_buffer = Resolved 0"
    by (simp add: waitInitialization_def empty_x_buffer_def)
  have r': "db empty_x_buffer (fullKey once_2s ''x'') = Some \<lparr>content = EmptyText, expiry = None\<rparr>"
    by (simp add: empty_x_buffer_def fullKey_def once_2s_def)
  have e: "content \<lparr>content = EmptyText, expiry = None\<rparr> = EmptyText" by simp
  have s: "\<not> returnBuffers empty_x" by (simp add: empty_x_def)
  have b: "returnBuffers empty_x_buffer" by (simp add: empty_x_buffer_def)
  from get_empty_string [OF g r e, of schema_A False] get_empty_string [OF g' r' e, of schema_A False]
    g r g' r' s b
  show ?thesis by (simp add: db_elapse)
qed

lemma get_invalid_gives_null:
  assumes "waitInitialization c = Resolved n"
    and "db c (fullKey opts key) = Some e"
    and "JSON_parse (content e) = Inr (JArr xs)"
    and "(if instanceof_ObjectSchema template then fromCompressedArray (JArr xs) (ASchema template)
          else Inr (JArr xs)) = Inr obj"
    and "\<not> validate template obj"
  shows "fst (get c opts template key force) = Fulfilled JNull"
proof -
  from assms(3) have t: "content e = JsonText (JArr xs)"
    by (cases "content e") simp_all
  from assms(4,5) have "sealJsonParser (JsonText (JArr xs)) template = Inr JNull"
    by (auto simp: sealJsonParser_def split: if_splits)
  with assms(1,2) t show ?thesis
    by (simp add: get_def client_get_def db_elapse)
qed

lemma collect_Inl:
  assumes "y \<in> set ys" and "f y = Inl e"
    and "\<And>z. z \<in> set ys \<Longrightarrow> f z = Inl e \<or> (\<exists>v. f z = Inr v)"
  shows "collect (map f ys) = Inl e"
  using assms
proof (induction ys)
  case Nil
  then show ?case by simp
next
  case (Cons z zs)
  from Cons.prems(3) [of z] consider "f z = Inl e" | v where "f z = Inr v" by auto
  then show ?case
  proof cases
    case 1
    then show ?thesis by simp
  next
    case 2
    with Cons.prems have "y \<in> set zs" by auto
    with Cons.IH Cons.prems have "collect (map f zs) = Inl e" by simp
    with 2 show ?thesis by simp
  qed
qed

lemma fromCompressedArray_nested:
  assumes "(key, Object sh) \<in> set shape"
  shows "fromCompressedArray (JArr xs) (ASchema (Object shape)) = Inl TypeError"
proof -
  let ?f = "\<lambda>(idx, (key, propSchema)).
     case element (JArr xs) idx of
       Inl e \<Rightarrow> Inl e
     | Inr raw \<Rightarrow>
         (case propSchema of
            Object sh \<Rightarrow> fromCompressedArray raw (AShape sh)
          | _ \<Rightarrow> Inr raw)"
  from assms obtain idx where i: "idx < length shape" "shape ! idx = (key, Object sh)"
    by (metis in_set_conv_nth)
  then have m: "(idx, (key, Object sh)) \<in> set (enumerate 0 shape)"
    by (simp add: in_set_enumerate_eq)
  have t: "?f (idx, (key, Object sh)) = Inl TypeError"
    by (simp add: fromCompressedArray.simps)
  have a: "?f z = Inl TypeError \<or> (\<exists>v. ?f z = Inr v)" for z
    by (cases z; cases "snd (snd z)") (auto simp: fromCompressedArray.simps)
  from collect_Inl [of "(idx, (key, Object sh))" "enumerate 0 shape" ?f, OF m t a]
  show ?thesis by (subst fromCompressedArray.simps) simp
qed

text \<open>
  Claim C7. A present record whose text parses to a JSON array and whose reconstructed
  value fails validation is to give \<open>null\<close>, with and without \<open>force\<close>. So it does where
  \<open>fromCompressedArray\<close> returns (\<open>get_invalid_gives_null\<close>). For a schema with a nested
  object field it never returns (\<open>fromCompressedArray_nested\<close>): with the record
  \<open>[[1, 2], true]\<close> under schema B, the value that section 4.1 of the spec reconstructs
  fails validation, and \<open>get\<close> fails with a TypeError, with and without \<open>force\<close>.
\<close>

theorem get_nested_validation_failure:
  "db nested_x (fullKey once_2s ''x'') =
     Some \<lparr>content = JsonText (JArr [JArr [JNum 1, JNum 2], JBool True]), expiry = None\<rparr> \<and>
   spec_reconstruct [(''profile'', schema_A), (''active'', Primitive PBoolean)]
       [JArr [JNum 1, JNum 2], JBool True] =
     Inr (JObj [(''profile'', JObj [(''userId'', JNum 1), (''userName'', JNum 2)]),
                (''active'', JBool True)]) \<and>
   \<not> validate schema_B
       (JObj [(''profile'', JObj [(''userId'', JNum 1), (''userName'', JNum 2)]),
              (''active'', JBool True)]) \<and>
   fst (get nested_x once_2s schema_B ''x'' False) = Rejected TypeError \<and>
   fst (get nested_x once_2s schema_B ''x'' True) = Rejected TypeError"
proof -
  have "spec_reconstruct [(''profile'', schema_A), (''active'', Primitive PBoolean)]
       [JArr [JNum 1, JNum 2], JBool True] =
     Inr (JObj [(''profile'', JObj [(''userId'', JNum 1), (''userName'', JNum 2)]),
                (''active'', JBool True)])"
    by (simp add: spec_reconstruct.simps schema_A_def at_index_def)
  moreover have "fst (get nested_x once_2s schema_B ''x'' force) = Rejected TypeError" for force
    by (simp add: get_def once_2s_def nested_x_def waitInitialization_def elapse_def
        client_get_def fullKey_def sealJsonParser_def fromCompressedArray.simps schema_B_def
        schema_A_def at_index_def)
  ultimately show ?thesis
    by (simp add: nested_x_def fullKey_def once_2s_def schema_B_def schema_A_def)
qed

text \<open>
  Claim C4. \<open>delete(key)\<close> is to remove the record at \<open>fullKey(namespace, key)\<close>. The
  method passes \<open>key\<close> itself to \<open>del\<close>: with a record stored at \<open>ns+x\<close>, \<open>delete("x")\<close>
  removes nothing, returns the count 0 and leaves the record (\<open>db_delete_fullKey\<close>: for
  every key).
\<close>

theorem delete_unprefixed_key:
  "db invalid_x (fullKey once_2s ''x'') \<noteq> None \<and>
   delete invalid_x once_2s ''x'' = (Fulfilled 0, invalid_x)"
  by (simp add: once_2s_def invalid_x_def waitInitialization_def elapse_def fullKey_def
      delete_def client_del_def)

text \<open>
  Claim C3. Under \<open>readOnce\<close> a record is to be retrievable exactly once. With the store
  of the example (\<open>ttl = 2\<close>, \<open>readOnce = true\<close>), after \<open>set("x", value)\<close> the first
  \<open>get("x")\<close> returns the value, and so does the second: the record is still stored
  (\<open>get_keeps_record\<close>: for every call of \<open>get\<close>).
\<close>

theorem readOnce_second_get:
  "(let (r0, c1) = set_value connected once_2s schema_A ''x'' value_7;
        (r1, c2) = get c1 once_2s schema_A ''x'' False;
        (r2, c3) = get c2 once_2s schema_A ''x'' False
    in r0 = Fulfilled ''x'' \<and> r1 = Fulfilled value_7 \<and> r2 = Fulfilled value_7 \<and>
       db c3 ''ns+x'' = Some \<lparr>content = JsonText (JArr [JStr ''7'', JNull]), expiry = Some 2\<rparr>)"
  by (simp add: set_value_def get_def once_2s_def connected_def waitInitialization_def elapse_def
      client_get_def client_setEx_def fullKey_def value_7_def
      serialize.simps jsonStringify_def
      sealJsonParser_def fromCompressedArray.simps schema_A_def at_index_def delete_def client_del_def)

lemma get_readOnce_starts_delete:
  assumes "waitInitialization c = Resolved n"
    and "db c (fullKey opts key) = Some e"
    and "returnBuffers c \<or> content e \<noteq> EmptyText"
    and "readOnce opts"
  shows "snd (get c opts template key force) = snd (delete (elapse n c) opts key)"
  using assms by (auto simp: get_def client_get_def db_elapse elapse_def)

text \<open>
  Claim C10. Under \<open>readOnce\<close> the \<open>delete\<close> of \<open>get\<close> is started for every present raw
  value, whatever decoding gives (\<open>get_readOnce_starts_delete\<close>), and is to consume the
  record also when validation fails. For
  the record \<open>[7, null]\<close> under schema A, \<open>get\<close> returns \<open>null\<close> and the store is as
  before: the record is not consumed.
\<close>

theorem get_readOnce_invalid_record:
  "readOnce once_2s \<and>
   get invalid_x once_2s schema_A ''x'' False = (Fulfilled JNull, invalid_x)"
  by (simp add: get_def once_2s_def invalid_x_def waitInitialization_def elapse_def
      client_get_def fullKey_def sealJsonParser_def fromCompressedArray.simps schema_A_def
      at_index_def delete_def client_del_def)

text \<open>
  Claim C5. The gate returns at once for a ready client and polls up to 300 times
  otherwise (\<open>waitInitialization_Resolved\<close>); past the bound its error is to reach the
  caller. For a client that is never ready the error is raised in the timer callback
  and the promise of \<open>waitInitialization\<close>, hence of \<open>get\<close>, is never settled.
\<close>

theorem waitInitialization_never_ready:
  "waitInitialization never_ready = Uncaught (Error timeout_message) \<and>
   get never_ready once_2s schema_A ''x'' False = (Pending, never_ready)"
proof -
  have "waitInitialization never_ready = Uncaught (Error timeout_message)"
    by (simp add: waitInitialization_Uncaught never_ready_def)
  then show ?thesis by (simp add: get_def)
qed

section \<open>The codec: encoding and round trip\<close>

text \<open>
  Claim C2. Encoding the value of the example under schema B is to give
  \<open>[["1", "bob"], true]\<close>. The nested call of \<open>serialize\<close> reads the nested object
  with the field names of B, not with those of A, and gives
  \<open>[[undefined, undefined], true]\<close>.
\<close>

theorem serialize_nested_object:
  "validate schema_B value_bob \<and>
   serialize schema_B value_bob = Inr (JArr [JArr [JUndef, JUndef], JBool True])"
  by (simp add: schema_B_def schema_A_def value_bob_def serialize.simps)

lemma validate_base_scalar: "validate_base b v \<Longrightarrow> scalar_value v"
  by (cases b; cases v) simp_all

lemma validate_item_scalar: "validate_item i v \<Longrightarrow> scalar_value v \<or> v = JUndef"
  by (cases i) (auto dest: validate_base_scalar)

lemma validate_scalar: "scalar_schema s \<Longrightarrow> validate s v \<Longrightarrow> scalar_value v \<or> v = JUndef"
  by (cases s) (auto dest: validate_base_scalar)

lemma validate_null_if_absent: "scalar_schema s \<Longrightarrow> validate s v \<Longrightarrow> validate s (null_if_absent v)"
  by (cases s) (auto simp: null_if_absent_def)

lemma validate_item_null_if_absent: "validate_item i v \<Longrightarrow> validate_item i (null_if_absent v)"
  by (cases i) (auto simp: null_if_absent_def)

lemma scalar_value_passes: "scalar_value v \<or> v = JUndef \<Longrightarrow> \<not> (truthy v \<and> typeof v = ''object'')"
  by (cases v) simp_all

lemma scalar_value_json:
  "scalar_value v \<or> v = JUndef \<Longrightarrow> (if v = JUndef then JNull else json_of v) = null_if_absent v"
  by (cases v) (simp_all add: null_if_absent_def)

lemma scalar_value_deep_equal: "scalar_value v \<Longrightarrow> deep_equal v v"
  by (cases v) simp_all

lemma collect_map_Inr: "(\<And>x. x \<in> set xs \<Longrightarrow> f x = Inr (g x)) \<Longrightarrow> collect (map f xs) = Inr (map g xs)"
  by (induction xs) simp_all

lemma collect_all_Inr: "(\<And>x. x \<in> set xs \<Longrightarrow> \<exists>y. f x = Inr y) \<Longrightarrow> \<exists>ys. collect (map f xs) = Inr ys"
proof (induction xs)
  case Nil
  then show ?case by simp
next
  case (Cons x xs)
  from Cons.prems [of x] obtain y where "f x = Inr y" by auto
  moreover from Cons obtain ys where "collect (map f xs) = Inr ys" by auto
  ultimately show ?case by simp
qed

lemma json_of_scalars:
  assumes "\<And>x. x \<in> set xs \<Longrightarrow> scalar_value x \<or> x = JUndef"
  shows "json_of (JArr xs) = JArr (map null_if_absent xs)"
  using assms by (simp add: scalar_value_json)

lemma serialize_array:
  assumes "\<And>x. x \<in> set xs \<Longrightarrow> scalar_value x \<or> x = JUndef" and "shape_keys template = []"
  shows "serialize template (JArr xs) = Inr (JArr xs)"
proof -
  have "collect (map (\<lambda>v. if truthy v \<and> typeof v = ''object'' then serialize template v else Inr v) xs)
      = Inr (map (\<lambda>v. v) xs)"
  proof (rule collect_map_Inr)
    fix x assume "x \<in> set xs"
    with assms(1) have "\<not> (truthy x \<and> typeof x = ''object'')" by (intro scalar_value_passes) simp
    then show "(if truthy x \<and> typeof x = ''object'' then serialize template x else Inr x) = Inr x"
      by auto
  qed
  with assms(2) show ?thesis by (simp add: serialize.simps)
qed

lemma serialize_no_shape:
  "shape_keys template = [] \<Longrightarrow> truthy payload \<Longrightarrow> typeof payload = ''object'' \<Longrightarrow>
   \<exists>ys. serialize template payload = Inr (JArr ys)"
proof (induction template payload rule: serialize.induct)
  case (1 template payload)
  from "1.prems" obtain vs where vs: "Object_values payload = Inr vs"
    by (cases payload) auto
  have "\<exists>ys. collect (map (\<lambda>v. if truthy v \<and> typeof v = ''object''
      then serialize template v else Inr v) vs) = Inr ys"
  proof (rule collect_all_Inr)
    fix v assume v: "v \<in> set vs"
    show "\<exists>y. (if truthy v \<and> typeof v = ''object'' then serialize template v else Inr v) = Inr y"
    proof (cases "truthy v \<and> typeof v = ''object''")
      case True
      with "1.IH"(2) [of "shape_keys template" vs v] "1.prems" vs v
      show ?thesis by auto
    next
      case False
      then show ?thesis by auto
    qed
  qed
  with "1.prems" vs show ?case by (subst serialize.simps) auto
qed

lemma round_trip_array:
  assumes "validate (Array i) v"
  shows "decode_encode (Array i) v = Inr (as_stored (Array i) v) \<and>
         validate (Array i) (as_stored (Array i) v) \<and>
         (fully_present (Array i) v \<longrightarrow> deep_equal (as_stored (Array i) v) v)"
proof -
  from assms obtain xs where v: "v = JArr xs" and xs: "list_all (validate_item i) xs"
    by (cases v) simp_all
  from xs have sc: "\<And>x. x \<in> set xs \<Longrightarrow> scalar_value x \<or> x = JUndef"
    by (auto simp: list_all_iff dest: validate_item_scalar)
  let ?ys = "map null_if_absent xs"
  have 1: "serialize (Array i) (JArr xs) = Inr (JArr xs)"
    using sc by (simp add: serialize_array)
  have 2: "jsonStringify (JArr xs) = Inr (JsonText (JArr ?ys))"
    using sc by (simp add: jsonStringify_def json_of_scalars del: json_of.simps)
  have 3: "list_all (validate_item i) ?ys"
    using xs by (auto simp: list_all_iff validate_item_null_if_absent)
  then have 4: "sealJsonParser (JsonText (JArr ?ys)) (Array i) = Inr (JArr ?ys)"
    by (simp add: sealJsonParser_def)
  have 5: "deep_equal (JArr ?ys) (JArr xs)" if "list_all (\<lambda>v. v \<noteq> JUndef) xs"
  proof -
    from that have "?ys = xs" by (auto simp: list_all_iff null_if_absent_def intro: map_idI)
    moreover from that sc have "list_all2 deep_equal xs xs"
      by (auto simp: list_all_iff list_all2_same intro: scalar_value_deep_equal)
    ultimately show ?thesis by simp
  qed
  from 1 2 3 4 5 show ?thesis unfolding v by (simp add: decode_encode_def)
qed


lemma lookup_map_key:
  "key \<in> set (map fst shape) \<Longrightarrow> lookup (map (\<lambda>(key, s). (key, f key)) shape) key = f key"
  by (induction shape) fastforce+

lemma lookup_defined:
  "key \<in> set (map fst ps) \<Longrightarrow> list_all (\<lambda>(k, v). v \<noteq> JUndef) ps \<Longrightarrow> lookup ps key \<noteq> JUndef"
  by (induction ps) (fastforce split: if_splits)+

lemma element_enumerate:
  "map (\<lambda>(idx, x). at_index ys idx) (enumerate n xs) = map (at_index ys) [n..<n + length xs]"
  by (induction xs arbitrary: n) (simp_all add: upt_rec)

lemma at_index_all: "map (at_index ys) [0..<length ys] = ys"
  by (rule nth_equalityI) (simp_all add: at_index_def)

lemma zip_map_fields: "zip (map fst shape) (map (\<lambda>(key, s). f key) shape) = map (\<lambda>(key, s). (key, f key)) shape"
  by (induction shape) auto

lemma serialize_flat_object:
  assumes "\<And>key. key \<in> set (map fst shape) \<Longrightarrow> scalar_value (lookup ps key) \<or> lookup ps key = JUndef"
    and "shape \<noteq> []"
  shows "serialize (Object shape) (JObj ps) = Inr (JArr (map (\<lambda>(key, s). lookup ps key) shape))"
proof -
  have "collect (map (\<lambda>key. case getProp (JObj ps) key of Inl e \<Rightarrow> Inl e
            | Inr v \<Rightarrow> if truthy v \<and> typeof v = ''object'' then serialize (Object shape) v else Inr v)
          (map fst shape)) = Inr (map (lookup ps) (map fst shape))"
  proof (rule collect_map_Inr)
    fix key assume "key \<in> set (map fst shape)"
    with assms(1) have "\<not> (truthy (lookup ps key) \<and> typeof (lookup ps key) = ''object'')"
      by (intro scalar_value_passes) simp
    then show "(case getProp (JObj ps) key of Inl e \<Rightarrow> Inl e
            | Inr v \<Rightarrow> if truthy v \<and> typeof v = ''object'' then serialize (Object shape) v else Inr v)
        = Inr (lookup ps key)"
      by auto
  qed
  moreover have "map (lookup ps) (map fst shape) = map (\<lambda>(key, s). lookup ps key) shape"
    by (induction shape) auto
  ultimately show ?thesis using assms(2) by (subst serialize.simps) simp
qed

lemma fromCompressedArray_flat:
  assumes "list_all (\<lambda>(key, s). scalar_schema s) shape"
  shows "fromCompressedArray (JArr ys) (ASchema (Object shape)) =
         Inr (JObj (zip (map fst shape) (map (at_index ys) [0..<length shape])))"
proof -
  have "collect (map (\<lambda>(idx, (key, propSchema)).
           case element (JArr ys) idx of Inl e \<Rightarrow> Inl e
           | Inr raw \<Rightarrow> (case propSchema of Object sh \<Rightarrow> fromCompressedArray raw (AShape sh) | _ \<Rightarrow> Inr raw))
         (enumerate 0 shape)) = Inr (map (\<lambda>(idx, x). at_index ys idx) (enumerate 0 shape))"
  proof (rule collect_map_Inr)
    fix x assume m: "x \<in> set (enumerate 0 shape)"
    obtain idx key s where x: "x = (idx, (key, s))" by (metis prod.exhaust)
    with m have "idx < length shape" "shape ! idx = (key, s)"
      by (simp_all add: in_set_enumerate_eq)
    then have "(key, s) \<in> set shape" by (metis nth_mem)
    with assms have "scalar_schema s" by (auto simp: list_all_iff)
    then show "(case x of (idx, (key, propSchema)) \<Rightarrow>
           case element (JArr ys) idx of Inl e \<Rightarrow> Inl e
           | Inr raw \<Rightarrow> (case propSchema of Object sh \<Rightarrow> fromCompressedArray raw (AShape sh) | _ \<Rightarrow> Inr raw))
        = Inr (case x of (idx, x) \<Rightarrow> at_index ys idx)"
      using x by (cases s) simp_all
  qed
  then show ?thesis by (subst fromCompressedArray.simps) (simp add: element_enumerate)
qed

lemma round_trip_flat_object:
  assumes "validate (Object shape) v" and "flat_schema (Object shape)"
  shows "decode_encode (Object shape) v = Inr (as_stored (Object shape) v) \<and>
         validate (Object shape) (as_stored (Object shape) v) \<and>
         (fully_present (Object shape) v \<longrightarrow> deep_equal (as_stored (Object shape) v) v)"
proof -
  from assms(1) obtain ps where v: "v = JObj ps"
    and f: "list_all (\<lambda>(key, s). validate s (lookup ps key)) shape"
    by (cases v) simp_all
  from assms(2) have sc: "list_all (\<lambda>(key, s). scalar_schema s) shape"
    by simp
  let ?g = "\<lambda>key. null_if_absent (lookup ps key)"
  let ?st = "map (\<lambda>(key, s). (key, ?g key)) shape"
  have stored: "as_stored (Object shape) v = JObj ?st" by (simp add: v)
  have field: "validate s (lookup ps key) \<and> scalar_schema s" if "(key, s) \<in> set shape" for key s
    using that f sc by (auto simp: list_all_iff)
  have scalar: "scalar_value (lookup ps key) \<or> lookup ps key = JUndef"
    if "key \<in> set (map fst shape)" for key
  proof -
    from that obtain s where "(key, s) \<in> set shape" by auto
    with field show ?thesis by (auto dest: validate_scalar)
  qed
  have valid: "validate (Object shape) (JObj ?st)"
  proof -
    have "list_all (\<lambda>(key, s). validate s (lookup ?st key)) shape"
      unfolding list_all_iff
    proof
      fix x assume x: "x \<in> set shape"
      obtain key s where ks: "x = (key, s)" by (cases x)
      with x have "key \<in> set (map fst shape)" by force
      then have "lookup ?st key = ?g key" by (rule lookup_map_key)
      moreover from field x ks have "validate s (?g key)"
        by (auto intro: validate_null_if_absent)
      ultimately show "case x of (key, s) \<Rightarrow> validate s (lookup ?st key)"
        using ks by simp
    qed
    then show ?thesis by simp
  qed
  have decode: "sealJsonParser (JsonText (JArr ys)) (Object shape) = Inr (JObj ?st)"
    if "map (at_index ys) [0..<length shape] = map (\<lambda>(key, s). ?g key) shape" for ys
  proof -
    from sc that have "fromCompressedArray (JArr ys) (ASchema (Object shape)) = Inr (JObj ?st)"
      by (simp add: fromCompressedArray_flat zip_map_fields)
    with valid show ?thesis by (simp add: sealJsonParser_def)
  qed
  have round: "decode_encode (Object shape) v = Inr (JObj ?st)"
  proof (cases "shape = []")
    case True
    then obtain ys where "serialize (Object shape) v = Inr (JArr ys)"
      using serialize_no_shape [of "Object shape" v] by (auto simp: v)
    moreover have "jsonStringify (JArr ys) =
        Inr (JsonText (JArr (map (\<lambda>x. if x = JUndef then JNull else json_of x) ys)))"
      by (simp add: jsonStringify_def)
    moreover have "sealJsonParser
        (JsonText (JArr (map (\<lambda>x. if x = JUndef then JNull else json_of x) ys))) (Object shape) =
        Inr (JObj ?st)"
      using True by (intro decode) simp
    ultimately show ?thesis by (simp add: decode_encode_def)
  next
    case False
    let ?raw = "map (\<lambda>(key, s). lookup ps key) shape"
    let ?ys = "map (\<lambda>(key, s). ?g key) shape"
    have 1: "serialize (Object shape) v = Inr (JArr ?raw)"
      unfolding v using scalar False by (rule serialize_flat_object)
    have "\<And>x. x \<in> set ?raw \<Longrightarrow> scalar_value x \<or> x = JUndef"
      using scalar by force
    then have "json_of (JArr ?raw) = JArr (map null_if_absent ?raw)"
      by (rule json_of_scalars)
    also have "map null_if_absent ?raw = ?ys"
      by (induction shape) auto
    finally have 2: "jsonStringify (JArr ?raw) = Inr (JsonText (JArr ?ys))"
      by (simp add: jsonStringify_def del: json_of.simps)
    have "map (at_index ?ys) [0..<length shape] = ?ys"
      using at_index_all [of ?ys] by simp
    then have 3: "sealJsonParser (JsonText (JArr ?ys)) (Object shape) = Inr (JObj ?st)"
      by (rule decode)
    from 1 2 3 show ?thesis by (simp add: decode_encode_def)
  qed
  have equal: "deep_equal (JObj ?st) v" if fp: "fully_present (Object shape) v"
  proof -
    from fp have k: "set (map fst ps) = set (map fst shape)"
      and d: "list_all (\<lambda>(k, v). v \<noteq> JUndef) ps"
      by (simp_all add: v)
    have "list_all (\<lambda>(k, x). deep_equal x (lookup ps k)) ?st"
      unfolding list_all_iff
    proof
      fix x assume "x \<in> set ?st"
      then obtain key s where ks: "(key, s) \<in> set shape" and x: "x = (key, ?g key)"
        by auto
      then have m: "key \<in> set (map fst shape)" by force
      with k have "key \<in> set (map fst ps)" by simp
      from lookup_defined [OF this d] have "lookup ps key \<noteq> JUndef" .
      with scalar [OF m] have "?g key = lookup ps key" "scalar_value (lookup ps key)"
        by (simp_all add: null_if_absent_def)
      with x show "case x of (k, x) \<Rightarrow> deep_equal x (lookup ps k)"
        by (simp add: scalar_value_deep_equal)
    qed
    moreover have "map fst ?st = map fst shape" by (induction shape) auto
    ultimately show ?thesis using k by (simp add: v)
  qed
  from round valid equal stored show ?thesis by simp
qed

lemma round_trip_scalar_schema:
  assumes "validate template v" and "scalar_schema template" and "v \<noteq> JNull" and "v \<noteq> JUndef"
  shows "serialize template v = Inr v \<and> jsonStringify v = Inr (JsonText v) \<and>
         decode_encode template v = Inl (Error ''Input must be a JSON array string'')"
proof -
  from assms(1,2,4) have sv: "scalar_value v" by (auto dest: validate_scalar)
  with assms(3) have 1: "serialize template v = Inr v"
    by (cases v) (simp_all add: serialize.simps)
  from sv have 2: "jsonStringify v = Inr (JsonText v)"
    by (cases v) (simp_all add: jsonStringify_def)
  from sv assms(3) have 3: "sealJsonParser (JsonText v) template = Inl (Error ''Input must be a JSON array string'')"
    by (cases v) (simp_all add: sealJsonParser_def)
  from 1 2 3 show ?thesis by (simp add: decode_encode_def)
qed

text \<open>
  Claim C1, as stated, at a primitive schema and at an absent nullable field. The
  encoding of the string \<open>"abc"\<close> is the bare string, which the parser rejects, so
  nothing is decoded. The value \<open>{userId: "7"}\<close> conforms to schema A, whose \<open>userName\<close>
  is nullable, and is decoded as \<open>{userId: "7", userName: null}\<close>, which is not
  deep-equal to it.
\<close>

theorem round_trip_counterexample:
  "validate (Primitive PString) (JStr ''abc'') \<and>
   decode_encode (Primitive PString) (JStr ''abc'') =
     Inl (Error ''Input must be a JSON array string'') \<and>
   \<not> (\<exists>v'. decode_encode (Primitive PString) (JStr ''abc'') = Inr v') \<and>
   validate schema_A value_7_only \<and>
   decode_encode schema_A value_7_only = Inr value_7 \<and>
   \<not> deep_equal value_7 value_7_only"
proof -
  have "decode_encode (Primitive PString) (JStr ''abc'') =
      Inl (Error ''Input must be a JSON array string'')"
    by (simp add: decode_encode_def serialize.simps jsonStringify_def sealJsonParser_def)
  moreover have "decode_encode schema_A value_7_only = Inr value_7"
    by (simp add: decode_encode_def serialize.simps jsonStringify_def sealJsonParser_def
        fromCompressedArray.simps schema_A_def value_7_only_def value_7_def at_index_def)
  moreover have "\<not> deep_equal value_7 value_7_only"
    by (auto simp: value_7_def value_7_only_def)
  ultimately show ?thesis by (simp add: schema_A_def value_7_only_def)
qed

text \<open>
  Claim C1, amended. For an array schema, and for an object schema all of whose fields
  are primitive or nullable, decoding the encoding of a conforming value succeeds and
  validates; the decoded value is the value as the wire keeps it: the declared fields
  (the elements of an array), with \<open>null\<close> where a nullable field or element is absent.
  It is deep-equal to the original when the value has exactly the declared fields and
  nothing in it is absent. For a primitive or nullable schema and a conforming value
  other than \<open>null\<close> and \<open>undefined\<close>, the encoding is the bare value and decoding fails
  with the error "Input must be a JSON array string".
\<close>

theorem round_trip_by_design:
  assumes "validate template v"
  shows "(flat_schema template \<longrightarrow>
           decode_encode template v = Inr (as_stored template v) \<and>
           validate template (as_stored template v) \<and>
           (fully_present template v \<longrightarrow> deep_equal (as_stored template v) v)) \<and>
         (scalar_schema template \<and> v \<noteq> JNull \<and> v \<noteq> JUndef \<longrightarrow>
           serialize template v = Inr v \<and> jsonStringify v = Inr (JsonText v) \<and>
           decode_encode template v = Inl (Error ''Input must be a JSON array string''))"
proof (cases template)
  case (Array i)
  with assms round_trip_array [of i v] show ?thesis by simp
next
  case (Object shape)
  with assms round_trip_flat_object [of shape v] show ?thesis by simp
next
  case (Primitive b)
  with assms round_trip_scalar_schema [of template v] show ?thesis by simp
next
  case (Nullable b)
  with assms round_trip_scalar_schema [of template v] show ?thesis by auto
qed

theorem round_trip_by_design_witness:
  "validate schema_A value_7 \<and> flat_schema schema_A \<and> fully_present schema_A value_7 \<and>
   decode_encode schema_A value_7 = Inr value_7 \<and> deep_equal value_7 value_7 \<and>
   validate schema_A value_7_only \<and>
   decode_encode schema_A value_7_only = Inr value_7 \<and>
   validate (Nullable PNumber) (JNum 3) \<and> scalar_schema (Nullable PNumber) \<and>
   JNum 3 \<noteq> JNull \<and> JNum 3 \<noteq> JUndef \<and>
   serialize (Nullable PNumber) (JNum 3) = Inr (JNum 3) \<and>
   jsonStringify (JNum 3) = Inr (JsonText (JNum 3)) \<and>
   decode_encode (Nullable PNumber) (JNum 3) = Inl (Error ''Input must be a JSON array string'')"
proof -
  have a: "validate schema_A value_7" by (simp add: schema_A_def value_7_def)
  have o: "validate schema_A value_7_only" by (simp add: schema_A_def value_7_only_def)
  have f: "flat_schema schema_A" by (simp add: schema_A_def)
  have p: "fully_present schema_A value_7" by (auto simp: schema_A_def value_7_def)
  have n: "validate (Nullable PNumber) (JNum 3)" by simp
  have s: "as_stored schema_A value_7 = value_7"
    by (simp add: schema_A_def value_7_def null_if_absent_def)
  have s': "as_stored schema_A value_7_only = value_7"
    by (simp add: schema_A_def value_7_def value_7_only_def null_if_absent_def)
  from round_trip_by_design [OF a] round_trip_by_design [OF o] round_trip_by_design [OF n]
    a o f p n s s'
  show ?thesis by simp
qed

end
